theory Spec2Isabelle
  imports Main "HOL-Library.Word" "HOL-Library.Sublist"
begin

section \<open>Data model of \<open>serial_monitor.py\<close>\<close>

text \<open>
  A Python \<open>bytes\<close>/\<open>bytearray\<close> value is a list of bytes; iterating over it yields
  integers in \<open>0..255\<close>, read here with \<open>uint\<close>. A Python \<open>str\<close> is a list of Unicode
  code points. \<open>bytes\<close> objects are immutable and the \<open>bytearray\<close> held in \<open>self.cache\<close>
  is referenced from nowhere else (\<open>bytes(self.cache)\<close> copies it), so lists as values
  describe both exactly.
\<close>

type_synonym byte = "8 word"
type_synonym pystr = "nat list"

definition lit :: "string \<Rightarrow> pystr" where
  "lit s = map of_char s"

datatype error = SerialException | UnicodeDecodeError | OSError

text \<open>
  Every call that leaves the process is logged, in the order in which it happens:
  opening a port, asking how many bytes wait, reading, printing, closing, and the
  three file operations of \<open>file_dump\<close>.
\<close>

datatype event =
    SerialOpen pystr int
  | InWaiting pystr
  | SerialRead pystr nat
  | Print pystr
  | SerialClose pystr
  | FileOpen pystr
  | FileWrite pystr "byte list"
  | FileClose pystr

text \<open>
  The world outside the process: the log, the file system, and the two decisions that
  belong to the environment (whether \<open>serial.Serial(name, baudrate=b)\<close> succeeds, whether
  \<open>open(name, "wb")\<close> succeeds).
\<close>

record world =
  trace :: "event list"
  files :: "pystr \<Rightarrow> byte list option"
  can_open :: "pystr \<Rightarrow> int \<Rightarrow> bool"
  can_write :: "pystr \<Rightarrow> bool"

definition log :: "event \<Rightarrow> world \<Rightarrow> world" where
  "log e w = w\<lparr>trace := trace w @ [e]\<rparr>"

text \<open>
  The \<open>serial.Serial\<close> object as far as the program uses it: \<open>rx\<close> holds the bytes that
  have arrived and have not been read; \<open>in_waiting\<close> is their number and \<open>read n\<close> takes
  the first \<open>n\<close> of them.
\<close>

record serial =
  port :: pystr
  baudrate :: int
  rx :: "byte list"
  is_open :: bool

definition in_waiting :: "serial \<Rightarrow> nat" where
  "in_waiting sp = length (rx sp)"

definition read :: "serial \<Rightarrow> nat \<Rightarrow> byte list \<times> serial" where
  "read sp n = (take n (rx sp), sp\<lparr>rx := drop n (rx sp)\<rparr>)"

record SerialPipeline =
  port_name :: pystr
  serial_port :: serial
  delimeter :: int
  verbose :: bool
  cache :: "byte list"
  lines :: "byte list list"

subsection \<open>Library functions the program calls\<close>

text \<open>\<open>int.from_bytes(b, byteorder="little")\<close>: the first byte is the least significant.\<close>

fun from_bytes_little :: "byte list \<Rightarrow> int" where
  "from_bytes_little [] = 0"
| "from_bytes_little (b # bs) = uint b + 256 * from_bytes_little bs"

text \<open>
  \<open>bytes.decode("utf-8")\<close> with the default strict error handling: the well-formed byte
  sequences of the Unicode standard (no overlong forms, no surrogates, nothing above
  U+10FFFF); anything else raises \<open>UnicodeDecodeError\<close>, here \<open>None\<close>.
\<close>

definition cont :: "byte \<Rightarrow> bool" where
  "cont b = (0x80 \<le> b \<and> b \<le> 0xBF)"

definition low6 :: "byte \<Rightarrow> nat" where
  "low6 b = unat b mod 64"

fun decode_utf8 :: "byte list \<Rightarrow> pystr option" where
  "decode_utf8 [] = Some []"
| "decode_utf8 (b0 # bs) =
    (if b0 < 0x80 then map_option ((#) (unat b0)) (decode_utf8 bs)
     else if 0xC2 \<le> b0 \<and> b0 \<le> 0xDF then
       (case bs of
          b1 # r \<Rightarrow>
            if cont b1
            then map_option ((#) ((unat b0 mod 32) * 64 + low6 b1)) (decode_utf8 r)
            else None
        | _ \<Rightarrow> None)
     else if 0xE0 \<le> b0 \<and> b0 \<le> 0xEF then
       (case bs of
          b1 # b2 # r \<Rightarrow>
            if (if b0 = 0xE0 then 0xA0 \<le> b1 \<and> b1 \<le> 0xBF
                else if b0 = 0xED then 0x80 \<le> b1 \<and> b1 \<le> 0x9F
                else cont b1) \<and> cont b2
            then map_option ((#) ((unat b0 mod 16) * 4096 + low6 b1 * 64 + low6 b2))
                   (decode_utf8 r)
            else None
        | _ \<Rightarrow> None)
     else if 0xF0 \<le> b0 \<and> b0 \<le> 0xF4 then
       (case bs of
          b1 # b2 # b3 # r \<Rightarrow>
            if (if b0 = 0xF0 then 0x90 \<le> b1 \<and> b1 \<le> 0xBF
                else if b0 = 0xF4 then 0x80 \<le> b1 \<and> b1 \<le> 0x8F
                else cont b1) \<and> cont b2 \<and> cont b3
            then map_option
                   ((#) ((unat b0 mod 8) * 262144 + low6 b1 * 4096 + low6 b2 * 64 + low6 b3))
                   (decode_utf8 r)
            else None
        | _ \<Rightarrow> None)
     else None)"

section \<open>The port pipeline\<close>

text \<open>
  \<open>SerialPipeline.__init__\<close>. Opening the port is the only step that can fail; the
  exception leaves the constructor before any field is set.
\<close>

definition init ::
  "pystr \<Rightarrow> int \<Rightarrow> byte list \<Rightarrow> bool \<Rightarrow> world \<Rightarrow> (error + SerialPipeline) \<times> world" where
  "init name baud_rate delim verb w =
     (let w1 = log (SerialOpen name baud_rate) w in
      if can_open w name baud_rate
      then (Inr \<lparr>port_name = name,
                 serial_port = \<lparr>port = name, baudrate = baud_rate, rx = [], is_open = True\<rparr>,
                 delimeter = from_bytes_little delim,
                 verbose = verb,
                 cache = [],
                 lines = []\<rparr>, w1)
      else (Inl SerialException, w1))"

text \<open>
  The body of the \<open>for data_byte in data\<close> loop of \<open>update\<close>. In verbose mode the cache is
  decoded first; a failing decode raises before \<open>print\<close>, \<open>append\<close> and the reset.
  \<open>print\<close> itself is taken to succeed: a standard output that cannot encode the decoded
  text is outside this model, and no property below says that a verbose pipeline does
  not raise.
\<close>

definition step ::
  "SerialPipeline \<Rightarrow> world \<Rightarrow> byte \<Rightarrow> error option \<times> SerialPipeline \<times> world" where
  "step p w data_byte =
     (if uint data_byte = delimeter p then
        (if verbose p then
           (case decode_utf8 (cache p) of
              None \<Rightarrow> (Some UnicodeDecodeError, p, w)
            | Some text \<Rightarrow>
                (None, p\<lparr>lines := lines p @ [cache p], cache := []\<rparr>,
                 log (Print (port_name p @ lit '': '' @ text)) w))
         else (None, p\<lparr>lines := lines p @ [cache p], cache := []\<rparr>, w))
      else (None, p\<lparr>cache := cache p @ [data_byte]\<rparr>, w))"

fun process ::
  "byte list \<Rightarrow> SerialPipeline \<Rightarrow> world \<Rightarrow> error option \<times> SerialPipeline \<times> world" where
  "process [] p w = (None, p, w)"
| "process (b # bs) p w =
     (case step p w b of
        (None, p', w') \<Rightarrow> process bs p' w'
      | (Some e, p', w') \<Rightarrow> (Some e, p', w'))"

text \<open>\<open>SerialPipeline.update\<close>.\<close>

definition update :: "SerialPipeline \<Rightarrow> world \<Rightarrow> error option \<times> SerialPipeline \<times> world" where
  "update p w =
     (let in_buffer = in_waiting (serial_port p);
          w1 = log (InWaiting (port_name p)) w
      in if in_buffer > 0 then
           (let (data, sp) = read (serial_port p) in_buffer;
                w2 = log (SerialRead (port_name p) in_buffer) w1
            in process data (p\<lparr>serial_port := sp\<rparr>) w2)
         else (None, p, w1))"

text \<open>\<open>SerialPipeline.close\<close>.\<close>

definition close :: "SerialPipeline \<Rightarrow> world \<Rightarrow> SerialPipeline \<times> world" where
  "close p w =
     (p\<lparr>serial_port := (serial_port p)\<lparr>is_open := False\<rparr>\<rparr>,
      log (SerialClose (port_name p)) w)"

text \<open>
  \<open>SerialPipeline.file_dump\<close>. \<open>open(file_name, "wb")\<close> creates or truncates the file, or
  raises; each \<open>file.write(line)\<close> appends to what the handle holds; leaving the
  \<open>with\<close> block closes the file, which then holds everything written.
\<close>

fun write_lines :: "pystr \<Rightarrow> byte list list \<Rightarrow> byte list \<times> world \<Rightarrow> byte list \<times> world" where
  "write_lines file_name [] (buf, w) = (buf, w)"
| "write_lines file_name (line # rest) (buf, w) =
     write_lines file_name rest (buf @ line, log (FileWrite file_name line) w)"

definition file_dump :: "SerialPipeline \<Rightarrow> world \<Rightarrow> error option \<times> world" where
  "file_dump p w =
     (let file_name = port_name p @ lit ''_data.txt'';
          w1 = log (FileOpen file_name) w
      in if can_write w file_name then
           (let w2 = w1\<lparr>files := (files w1)(file_name \<mapsto> [])\<rparr>;
                (buf, w3) = write_lines file_name (lines p) ([], w2);
                w4 = log (FileClose file_name) w3
            in (None, w4\<lparr>files := (files w4)(file_name \<mapsto> buf)\<rparr>))
         else (Some OSError, w1))"

section \<open>The poll driver\<close>

text \<open>
  The loop \<open>for name in ports: pipelines.append(SerialPipeline(...))\<close>. An exception of
  the constructor leaves \<open>main\<close> at once; the pipelines built so far are returned only so
  that their state can be inspected.
\<close>

fun construct_all ::
  "pystr list \<Rightarrow> int \<Rightarrow> byte list \<Rightarrow> bool \<Rightarrow> SerialPipeline list \<Rightarrow> world
   \<Rightarrow> error option \<times> SerialPipeline list \<times> world" where
  "construct_all [] baud_rate delim verb pipelines w = (None, pipelines, w)"
| "construct_all (name # rest) baud_rate delim verb pipelines w =
     (case init name baud_rate delim verb w of
        (Inl e, w') \<Rightarrow> (Some e, pipelines, w')
      | (Inr p, w') \<Rightarrow> construct_all rest baud_rate delim verb (pipelines @ [p]) w')"

text \<open>The environment: bytes arriving at a port are queued behind those not yet read.\<close>

definition arrive :: "byte list \<Rightarrow> SerialPipeline \<Rightarrow> SerialPipeline" where
  "arrive chunk p = p\<lparr>serial_port := (serial_port p)\<lparr>rx := rx (serial_port p) @ chunk\<rparr>\<rparr>"

text \<open>
  \<open>while True: for pipeline in pipelines: pipeline.update()\<close> inside \<open>try\<close>. The loop has
  no exit of its own, so the run is driven by a schedule: its k-th entry is what has
  arrived, since that port was last polled, at the port of the k-th call of \<open>update\<close>.
  When the schedule is used up the \<open>KeyboardInterrupt\<close> arrives (between two calls of
  \<open>update\<close>), which is the result \<open>None\<close>; any other exception leaves the loop and \<open>main\<close>
  uncaught. With no pipeline the loop spins without effect until the interrupt.
\<close>

fun poll_loop ::
  "byte list list \<Rightarrow> nat \<Rightarrow> SerialPipeline list \<Rightarrow> world
   \<Rightarrow> error option \<times> SerialPipeline list \<times> world" where
  "poll_loop [] i pipelines w = (None, pipelines, w)"
| "poll_loop (chunk # sched) i pipelines w =
     (if i < length pipelines then
        (case update (arrive chunk (pipelines ! i)) w of
           (None, p', w') \<Rightarrow>
             poll_loop sched (if Suc i < length pipelines then Suc i else 0)
               (pipelines[i := p']) w'
         | (Some e, p', w') \<Rightarrow> (Some e, pipelines[i := p'], w'))
      else (None, pipelines, w))"

text \<open>\<open>for pipeline in pipelines: pipeline.close()\<close>.\<close>

fun close_all :: "SerialPipeline list \<Rightarrow> world \<Rightarrow> SerialPipeline list \<times> world" where
  "close_all [] w = ([], w)"
| "close_all (p # ps) w =
     (let (p', w1) = close p w;
          (ps', w2) = close_all ps w1
      in (p' # ps', w2))"

text \<open>The loop under \<open>if save_to_file\<close>; a failing dump ends it.\<close>

fun dump_all :: "SerialPipeline list \<Rightarrow> world \<Rightarrow> error option \<times> world" where
  "dump_all [] w = (None, w)"
| "dump_all (p # ps) w =
     (let w1 = log (Print (lit ''Saving data from port '' @ port_name p)) w in
      case file_dump p w1 of
        (None, w2) \<Rightarrow> dump_all ps w2
      | (Some e, w2) \<Rightarrow> (Some e, w2))"

text \<open>What \<open>main\<close> does once the interrupt has been caught.\<close>

definition shutdown ::
  "bool \<Rightarrow> SerialPipeline list \<Rightarrow> world \<Rightarrow> error option \<times> SerialPipeline list \<times> world" where
  "shutdown save_to_file pipelines w =
     (let w1 = log (Print (lit ''Closing all serial ports!'')) w;
          (ps, w2) = close_all pipelines w1
      in if save_to_file then (case dump_all ps w2 of (e, w3) \<Rightarrow> (e, ps, w3))
         else (None, ps, w2))"

definition main ::
  "pystr list \<Rightarrow> int \<Rightarrow> byte list \<Rightarrow> bool \<Rightarrow> bool \<Rightarrow> byte list list \<Rightarrow> world
   \<Rightarrow> error option \<times> SerialPipeline list \<times> world" where
  "main ports baud_rate delim verb save_to_file sched w =
     (case construct_all ports baud_rate delim verb [] w of
        (Some e, ps, w1) \<Rightarrow> (Some e, ps, w1)
      | (None, ps, w1) \<Rightarrow>
          (case poll_loop sched 0 ps (log (Print (lit ''All ports opened!'')) w1) of
             (Some e, ps', w2) \<Rightarrow> (Some e, ps', w2)
           | (None, ps', w2) \<Rightarrow> shutdown save_to_file ps' w2))"

text \<open>
  One pipeline polled once per chunk: the chunk arrives, then \<open>update\<close> runs. An
  exception ends the run, as it ends the loop of \<open>main\<close>.
\<close>

fun feed ::
  "byte list list \<Rightarrow> SerialPipeline \<Rightarrow> world \<Rightarrow> error option \<times> SerialPipeline \<times> world" where
  "feed [] p w = (None, p, w)"
| "feed (chunk # chunks) p w =
     (case update (arrive chunk p) w of
        (None, p', w') \<Rightarrow> feed chunks p' w'
      | (Some e, p', w') \<Rightarrow> (Some e, p', w'))"

text \<open>A world in which nothing has happened yet and every port and file can be opened.\<close>

definition world0 :: world where
  "world0 = \<lparr>trace = [], files = (\<lambda>_. None), can_open = (\<lambda>_ _. True), can_write = (\<lambda>_. True)\<rparr>"

text \<open>A pipeline as the constructor leaves it, for port \<open>"A"\<close> with delimiter \<open>b"\\n"\<close>.\<close>

definition fresh :: "bool \<Rightarrow> SerialPipeline" where
  "fresh verb =
     \<lparr>port_name = lit ''A'',
      serial_port = \<lparr>port = lit ''A'', baudrate = 115200, rx = [], is_open = True\<rparr>,
      delimeter = 10, verbose = verb, cache = [], lines = []\<rparr>"

section \<open>Notions used to state the properties\<close>

text \<open>
  Two pipelines agree on everything the framing loop reads or writes: the name, the
  delimiter, the verbose flag, the cache and the records. The connection and the world
  are left out.
\<close>

definition same_frame :: "SerialPipeline \<Rightarrow> SerialPipeline \<Rightarrow> bool" where
  "same_frame p q =
     (port_name p = port_name q \<and> delimeter p = delimeter q \<and> verbose p = verbose q \<and>
      cache p = cache q \<and> lines p = lines q)"

text \<open>
  The words of the properties, for a delimiter given as the integer the pipeline stores:
  the input with every delimiter byte removed; the bytes after the last delimiter (all of
  the input when there is none); the input up to and including the last delimiter; the
  number of delimiter bytes; and a byte sequence that holds no delimiter byte.
\<close>

definition without_delimiter :: "int \<Rightarrow> byte list \<Rightarrow> byte list" where
  "without_delimiter k xs = filter (\<lambda>b. uint b \<noteq> k) xs"

definition since_last_delimiter :: "int \<Rightarrow> byte list \<Rightarrow> byte list" where
  "since_last_delimiter k xs = rev (takeWhile (\<lambda>b. uint b \<noteq> k) (rev xs))"

definition upto_last_delimiter :: "int \<Rightarrow> byte list \<Rightarrow> byte list" where
  "upto_last_delimiter k xs = rev (dropWhile (\<lambda>b. uint b \<noteq> k) (rev xs))"

definition delimiter_count :: "int \<Rightarrow> byte list \<Rightarrow> nat" where
  "delimiter_count k xs = length (filter (\<lambda>b. uint b = k) xs)"

definition delimiter_free :: "int \<Rightarrow> byte list \<Rightarrow> bool" where
  "delimiter_free k xs = list_all (\<lambda>b. uint b \<noteq> k) xs"

text \<open>
  The framing loop on the two fields it changes, without the verbose branch: used in
  the proofs to reason about records and cache as plain lists.
\<close>

fun frame :: "int \<Rightarrow> byte list \<Rightarrow> byte list list \<times> byte list \<Rightarrow> byte list list \<times> byte list" where
  "frame k [] (ls, c) = (ls, c)"
| "frame k (b # bs) (ls, c) =
     (if uint b = k then frame k bs (ls @ [c], []) else frame k bs (ls, c @ [b]))"

text \<open>
  The pipeline the constructor returns when the port opens, and the events of one
  \<open>file_dump\<close> that succeeds together with the message \<open>main\<close> prints before it.
\<close>

definition opened :: "pystr \<Rightarrow> int \<Rightarrow> byte list \<Rightarrow> bool \<Rightarrow> SerialPipeline" where
  "opened name baud_rate delim verb =
     \<lparr>port_name = name,
      serial_port = \<lparr>port = name, baudrate = baud_rate, rx = [], is_open = True\<rparr>,
      delimeter = from_bytes_little delim, verbose = verb, cache = [], lines = []\<rparr>"

definition dump_events :: "SerialPipeline \<Rightarrow> event list" where
  "dump_events p =
     Print (lit ''Saving data from port '' @ port_name p) #
     FileOpen (port_name p @ lit ''_data.txt'') #
     map (FileWrite (port_name p @ lit ''_data.txt'')) (lines p) @
     [FileClose (port_name p @ lit ''_data.txt'')]"

section \<open>The framing loop\<close>

lemma step_cases:
  "step p w b = (e, p', w') \<Longrightarrow>
     (e = None \<and> uint b \<noteq> delimeter p \<and> p' = p\<lparr>cache := cache p @ [b]\<rparr> \<and> w' = w) \<or>
     (e = None \<and> uint b = delimeter p \<and> p' = p\<lparr>lines := lines p @ [cache p], cache := []\<rparr> \<and>
        (\<not> verbose p \<and> w' = w \<or>
         verbose p \<and> (\<exists>t. decode_utf8 (cache p) = Some t \<and>
                         w' = log (Print (port_name p @ lit '': '' @ t)) w))) \<or>
     (e = Some UnicodeDecodeError \<and> uint b = delimeter p \<and> verbose p \<and>
        decode_utf8 (cache p) = None \<and> p' = p \<and> w' = w)"
  by (auto simp: step_def split: if_splits option.splits)

lemma step_same:
  "same_frame p q \<Longrightarrow>
     fst (step p w b) = fst (step q v b) \<and> same_frame (fst (snd (step p w b))) (fst (snd (step q v b)))"
  by (auto simp: step_def same_frame_def split: option.splits)

lemma step_serial_port: "serial_port (fst (snd (step p w b))) = serial_port p"
  by (simp add: step_def split: option.splits)

lemma process_same:
  "same_frame p q \<Longrightarrow>
     fst (process data p w) = fst (process data q v) \<and>
     same_frame (fst (snd (process data p w))) (fst (snd (process data q v)))"
proof (induction data arbitrary: p q w v)
  case Nil
  then show ?case by simp
next
  case (Cons b bs)
  obtain e1 p1 w1 where s1: "step p w b = (e1, p1, w1)" by (cases "step p w b") auto
  obtain e2 p2 w2 where s2: "step q v b = (e2, p2, w2)" by (cases "step q v b") auto
  from step_same [OF Cons.prems, of w b v] s1 s2
  have eq: "e1 = e2" and sf: "same_frame p1 p2" by simp_all
  from eq s2 have s2': "step q v b = (e1, p2, w2)" by simp
  show ?case
  proof (cases e1)
    case None
    with s1 s2' Cons.IH [OF sf, of w1 w2] show ?thesis by simp
  next
    case (Some e)
    with s1 s2' sf show ?thesis by simp
  qed
qed

lemma process_append:
  "process (xs @ ys) p w =
     (case process xs p w of
        (None, p', w') \<Rightarrow> process ys p' w'
      | (Some e, p', w') \<Rightarrow> (Some e, p', w'))"
proof (induction xs arbitrary: p w)
  case Nil
  then show ?case by simp
next
  case (Cons b bs)
  obtain e1 p1 w1 where s1: "step p w b = (e1, p1, w1)" by (cases "step p w b") auto
  show ?case using s1 Cons.IH [of p1 w1] by (cases e1) simp_all
qed

lemma process_serial_port: "serial_port (fst (snd (process data p w))) = serial_port p"
proof (induction data arbitrary: p w)
  case Nil
  then show ?case by simp
next
  case (Cons b bs)
  obtain e1 p1 w1 where s1: "step p w b = (e1, p1, w1)" by (cases "step p w b") auto
  from step_serial_port [of p w b] s1 have sp: "serial_port p1 = serial_port p" by simp
  show ?case using s1 sp Cons.IH [of p1 w1] by (cases e1) simp_all
qed

lemma update_unfold:
  "update p w =
     (if rx (serial_port p) = [] then (None, p, log (InWaiting (port_name p)) w)
      else process (rx (serial_port p)) (p\<lparr>serial_port := (serial_port p)\<lparr>rx := []\<rparr>\<rparr>)
             (log (SerialRead (port_name p) (length (rx (serial_port p))))
                (log (InWaiting (port_name p)) w)))"
  by (simp add: update_def in_waiting_def read_def)


lemma same_frame_trans: "same_frame p q \<Longrightarrow> same_frame q r \<Longrightarrow> same_frame p r"
  by (simp add: same_frame_def)

lemma update_rx: "rx (serial_port (fst (snd (update p w)))) = []"
  by (simp add: update_unfold process_serial_port)

lemma update_arrive:
  assumes "rx (serial_port p) = []"
  shows "fst (update (arrive chunk p) w) = fst (process chunk p v) \<and>
         same_frame (fst (snd (update (arrive chunk p) w))) (fst (snd (process chunk p v)))"
proof (cases "chunk = []")
  case True
  with assms show ?thesis by (simp add: update_unfold arrive_def same_frame_def)
next
  case False
  let ?q = "(arrive chunk p)\<lparr>serial_port := (serial_port (arrive chunk p))\<lparr>rx := []\<rparr>\<rparr>"
  have sf: "same_frame ?q p" by (simp add: same_frame_def arrive_def)
  have rxq: "rx (serial_port (arrive chunk p)) = chunk" using assms by (simp add: arrive_def)
  show ?thesis using False rxq process_same [OF sf] 
    by (simp add: update_unfold)
qed

lemma feed_process:
  assumes "rx (serial_port p) = []"
  shows "fst (feed chunks p w) = fst (process (concat chunks) p v) \<and>
         same_frame (fst (snd (feed chunks p w))) (fst (snd (process (concat chunks) p v)))"
  using assms
proof (induction chunks arbitrary: p w v)
  case Nil
  then show ?case by (simp add: same_frame_def)
next
  case (Cons c cs)
  obtain e1 p1 w1 where u: "update (arrive c p) w = (e1, p1, w1)"
    by (cases "update (arrive c p) w") auto
  obtain e2 q1 v1 where pr: "process c p v = (e2, q1, v1)"
    by (cases "process c p v") auto
  from update_arrive [OF Cons.prems, of c w v] u pr
  have eq: "e2 = e1" and sf: "same_frame p1 q1" by simp_all
  from update_rx [of "arrive c p" w] u have rx1: "rx (serial_port p1) = []" by simp
  show ?case
  proof (cases e1)
    case None
    from Cons.IH [OF rx1, of w1 w1]
    have a: "fst (feed cs p1 w1) = fst (process (concat cs) p1 w1)"
      and b: "same_frame (fst (snd (feed cs p1 w1))) (fst (snd (process (concat cs) p1 w1)))"
      by simp_all
    from process_same [OF sf, of "concat cs" w1 v1]
    have c: "fst (process (concat cs) p1 w1) = fst (process (concat cs) q1 v1)"
      and d: "same_frame (fst (snd (process (concat cs) p1 w1))) (fst (snd (process (concat cs) q1 v1)))"
      by simp_all
    from None u pr eq a c same_frame_trans [OF b d] show ?thesis
      by (simp add: process_append)
  next
    case (Some e)
    with u pr eq sf show ?thesis by (simp add: process_append)
  qed
qed

subsection \<open>Records and cache as lists\<close>

lemma frame_append: "frame k (xs @ ys) s = frame k ys (frame k xs s)"
proof (induction xs arbitrary: s)
  case Nil
  then show ?case by (cases s) simp
next
  case (Cons b bs)
  then show ?case by (cases s) simp
qed

lemma frame_snoc:
  "frame k (xs @ [b]) s =
     (if uint b = k then (fst (frame k xs s) @ [snd (frame k xs s)], [])
      else (fst (frame k xs s), snd (frame k xs s) @ [b]))"
  by (cases "frame k xs s") (simp add: frame_append)

lemma frame_prefix: "\<exists>new. fst (frame k xs (ls, c)) = ls @ new"
  by (induction xs rule: rev_induct) (auto simp: frame_snoc)

lemma frame_count:
  "length (fst (frame k xs (ls, c))) = length ls + delimiter_count k xs"
  by (induction xs rule: rev_induct) (auto simp: frame_snoc delimiter_count_def)

lemma frame_cache:
  "delimiter_free k c \<Longrightarrow> snd (frame k xs (ls, c)) = since_last_delimiter k (c @ xs)"
proof (induction xs rule: rev_induct)
  case Nil
  then show ?case
    by (simp add: since_last_delimiter_def delimiter_free_def list_all_iff
          takeWhile_eq_all_conv [THEN iffD2])
next
  case (snoc b xs)
  then show ?case by (simp add: frame_snoc since_last_delimiter_def)
qed

lemma frame_free:
  "delimiter_free k c \<Longrightarrow> list_all (delimiter_free k) ls \<Longrightarrow>
     list_all (delimiter_free k) (fst (frame k xs (ls, c))) \<and>
     delimiter_free k (snd (frame k xs (ls, c)))"
  by (induction xs rule: rev_induct) (auto simp: frame_snoc delimiter_free_def)

lemma frame_concat:
  "concat (fst (frame k xs (ls, c))) @ snd (frame k xs (ls, c)) =
     concat ls @ c @ without_delimiter k xs"
  by (induction xs rule: rev_induct) (auto simp: frame_snoc without_delimiter_def)

lemma frame_rebuild:
  "concat (map (\<lambda>r. r @ [d]) (fst (frame (uint d) xs (ls, c)))) @ snd (frame (uint d) xs (ls, c)) =
     concat (map (\<lambda>r. r @ [d]) ls) @ c @ xs"
  by (induction xs rule: rev_induct) (auto simp: frame_snoc dest!: word_uint_eqI)

lemma split_at_last_delimiter:
  "upto_last_delimiter k xs @ since_last_delimiter k xs = xs"
  unfolding upto_last_delimiter_def since_last_delimiter_def
  by (metis rev_append rev_rev_ident takeWhile_dropWhile_id)

lemma since_last_free: "delimiter_free k (since_last_delimiter k xs)"
  unfolding since_last_delimiter_def delimiter_free_def list_all_iff
  by (auto dest: set_takeWhileD)

lemma without_delimiter_free: "delimiter_free k xs \<Longrightarrow> without_delimiter k xs = xs"
  by (simp add: without_delimiter_def delimiter_free_def list_all_iff)

lemma frame_dumped:
  "concat (fst (frame k xs ([], []))) = without_delimiter k (upto_last_delimiter k xs)"
proof -
  have fr: "delimiter_free k []" by (simp add: delimiter_free_def)
  have "concat (fst (frame k xs ([], []))) @ since_last_delimiter k xs = without_delimiter k xs"
    using frame_concat [of k xs "[]" "[]"] frame_cache [OF fr, of xs "[]"] by simp
  also have "without_delimiter k xs =
      without_delimiter k (upto_last_delimiter k xs) @ without_delimiter k (since_last_delimiter k xs)"
    by (metis filter_append split_at_last_delimiter without_delimiter_def)
  also have "without_delimiter k (since_last_delimiter k xs) = since_last_delimiter k xs"
    by (rule without_delimiter_free [OF since_last_free])
  finally show ?thesis by simp
qed

lemma process_outcome:
  "process data p w = (e, p', w') \<Longrightarrow>
     \<exists>done rest. data = done @ rest \<and>
        (lines p', cache p') = frame (delimeter p) done (lines p, cache p) \<and>
        same_frame p' (p\<lparr>lines := lines p', cache := cache p'\<rparr>) \<and>
        (case e of
           None \<Rightarrow> rest = []
         | Some x \<Rightarrow> x = UnicodeDecodeError \<and> verbose p \<and> decode_utf8 (cache p') = None \<and>
                     (\<exists>b bs. rest = b # bs \<and> uint b = delimeter p))"
proof (induction data arbitrary: p w)
  case Nil
  then show ?case by (auto simp: same_frame_def)
next
  case (Cons b bs)
  obtain e1 p1 w1 where s1: "step p w b = (e1, p1, w1)" by (cases "step p w b") auto
  show ?case
  proof (cases e1)
    case (Some x)
    with s1 Cons.prems have r: "e = Some x" "p' = p1" by simp_all
    from step_cases [OF s1] Some
    have "x = UnicodeDecodeError" "uint b = delimeter p" "verbose p"
         "decode_utf8 (cache p) = None" "p1 = p" by auto
    with r have "b # bs = [] @ (b # bs) \<and>
        (lines p', cache p') = frame (delimeter p) [] (lines p, cache p) \<and>
        same_frame p' (p\<lparr>lines := lines p', cache := cache p'\<rparr>) \<and>
        (case e of
           None \<Rightarrow> b # bs = []
         | Some x \<Rightarrow> x = UnicodeDecodeError \<and> verbose p \<and> decode_utf8 (cache p') = None \<and>
                     (\<exists>c cs. b # bs = c # cs \<and> uint c = delimeter p))"
      by (simp add: same_frame_def)
    then show ?thesis by blast
  next
    case None
    with s1 Cons.prems have pr: "process bs p1 w1 = (e, p', w')" by simp
    from Cons.IH [OF pr] obtain dn rest where
      d: "bs = dn @ rest"
      and f: "(lines p', cache p') = frame (delimeter p1) dn (lines p1, cache p1)"
      and sf: "same_frame p' (p1\<lparr>lines := lines p', cache := cache p'\<rparr>)"
      and c: "(case e of
           None \<Rightarrow> rest = []
         | Some x \<Rightarrow> x = UnicodeDecodeError \<and> verbose p1 \<and> decode_utf8 (cache p') = None \<and>
                     (\<exists>b bs. rest = b # bs \<and> uint b = delimeter p1))"
      by blast
    from step_cases [OF s1] None
    have st: "(uint b \<noteq> delimeter p \<and> p1 = p\<lparr>cache := cache p @ [b]\<rparr>) \<or>
              (uint b = delimeter p \<and> p1 = p\<lparr>lines := lines p @ [cache p], cache := []\<rparr>)"
      by auto
    then have k: "delimeter p1 = delimeter p" "verbose p1 = verbose p" "port_name p1 = port_name p"
      by auto
    from st f have f': "(lines p', cache p') = frame (delimeter p) (b # dn) (lines p, cache p)"
      by auto
    from sf k have sf': "same_frame p' (p\<lparr>lines := lines p', cache := cache p'\<rparr>)"
      by (simp add: same_frame_def)
    from d have d': "b # bs = (b # dn) @ rest" by simp
    from c k have c': "(case e of
           None \<Rightarrow> rest = []
         | Some x \<Rightarrow> x = UnicodeDecodeError \<and> verbose p \<and> decode_utf8 (cache p') = None \<and>
                     (\<exists>b bs. rest = b # bs \<and> uint b = delimeter p))"
      by (cases e) simp_all
    from d' f' sf' c' show ?thesis by blast
  qed
qed

lemma process_quiet: "\<not> verbose p \<Longrightarrow> fst (process data p w) = None"
proof (induction data arbitrary: p w)
  case Nil
  then show ?case by simp
next
  case (Cons b bs)
  obtain e1 p1 w1 where s1: "step p w b = (e1, p1, w1)" by (cases "step p w b") auto
  from step_cases [OF s1] Cons.prems have "e1 = None" "\<not> verbose p1" by auto
  with s1 Cons.IH [of p1 w1] show ?case by simp
qed

lemma frame_free_input:
  "delimiter_free k xs \<Longrightarrow> frame k xs (ls, c) = (ls, c @ xs)"
  by (induction xs arbitrary: c) (auto simp: delimiter_free_def)

lemma delimiter_count_uint: "delimiter_count (uint d) xs = count_list xs d"
  by (induction xs) (auto simp: delimiter_count_def dest: word_uint_eqI)

lemma delimiter_free_uint: "delimiter_free (uint d) xs = (d \<notin> set xs)"
  by (induction xs) (auto simp: delimiter_free_def dest: word_uint_eqI)

lemma feed_outcome:
  assumes "rx (serial_port p) = []" and "feed chunks p w = (e, p', w')"
  shows "\<exists>done rest. concat chunks = done @ rest \<and>
        (lines p', cache p') = frame (delimeter p) done (lines p, cache p) \<and>
        port_name p' = port_name p \<and> delimeter p' = delimeter p \<and> verbose p' = verbose p \<and>
        (case e of
           None \<Rightarrow> rest = []
         | Some x \<Rightarrow> x = UnicodeDecodeError \<and> verbose p \<and> decode_utf8 (cache p') = None \<and>
                     (\<exists>b bs. rest = b # bs \<and> uint b = delimeter p))"
proof -
  obtain e2 q v where pr: "process (concat chunks) p w = (e2, q, v)"
    by (cases "process (concat chunks) p w") auto
  from feed_process [OF assms(1), of chunks w w] assms(2) pr
  have eq: "e2 = e" and sf: "same_frame p' q" by simp_all
  from process_outcome [OF pr] obtain dn rest where
    d: "concat chunks = dn @ rest"
    and f: "(lines q, cache q) = frame (delimeter p) dn (lines p, cache p)"
    and sq: "same_frame q (p\<lparr>lines := lines q, cache := cache q\<rparr>)"
    and c: "(case e2 of
           None \<Rightarrow> rest = []
         | Some x \<Rightarrow> x = UnicodeDecodeError \<and> verbose p \<and> decode_utf8 (cache q) = None \<and>
                     (\<exists>b bs. rest = b # bs \<and> uint b = delimeter p))"
    by blast
  from sf have l: "lines p' = lines q" "cache p' = cache q" by (simp_all add: same_frame_def)
  from sf sq have n: "port_name p' = port_name p" "delimeter p' = delimeter p"
      "verbose p' = verbose p"
    by (simp_all add: same_frame_def)
  from c eq l have c': "(case e of
           None \<Rightarrow> rest = []
         | Some x \<Rightarrow> x = UnicodeDecodeError \<and> verbose p \<and> decode_utf8 (cache p') = None \<and>
                     (\<exists>b bs. rest = b # bs \<and> uint b = delimeter p))"
    by (cases e) simp_all
  from d f l n c' show ?thesis by auto
qed

lemma feed_quiet:
  "rx (serial_port p) = [] \<Longrightarrow> \<not> verbose p \<Longrightarrow> fst (feed chunks p w) = None"
  using feed_process [of p chunks w w] process_quiet [of p "concat chunks" w] by simp

lemma feed_None:
  assumes "rx (serial_port p) = []" and "fst (feed chunks p w) = None"
  shows "lines (fst (snd (feed chunks p w))) =
           fst (frame (delimeter p) (concat chunks) (lines p, cache p)) \<and>
         cache (fst (snd (feed chunks p w))) =
           snd (frame (delimeter p) (concat chunks) (lines p, cache p))"
proof -
  obtain p' w' where fd: "feed chunks p w = (None, p', w')"
    using assms(2) by (cases "feed chunks p w") auto
  from feed_outcome [OF assms(1) fd] have
    "(lines p', cache p') = frame (delimeter p) (concat chunks) (lines p, cache p)"
    by auto
  with fd show ?thesis by (metis fst_conv snd_conv)
qed

text \<open>The definitions unfolded to run the model on a concrete input.\<close>

lemmas run_simps = fresh_def world0_def update_def arrive_def in_waiting_def read_def log_def
  step_def lit_def

lemma step_env:
  "can_write (snd (snd (step p w b))) = can_write w \<and>
   can_open (snd (snd (step p w b))) = can_open w \<and>
   files (snd (snd (step p w b))) = files w"
  by (simp add: step_def log_def split: option.splits)

lemma process_env:
  "can_write (snd (snd (process data p w))) = can_write w \<and>
   can_open (snd (snd (process data p w))) = can_open w \<and>
   files (snd (snd (process data p w))) = files w"
proof (induction data arbitrary: p w)
  case Nil
  then show ?case by simp
next
  case (Cons b bs)
  obtain e1 p1 w1 where s1: "step p w b = (e1, p1, w1)" by (cases "step p w b") auto
  from step_env [of p w b] s1
  have "can_write w1 = can_write w" "can_open w1 = can_open w" "files w1 = files w"
    by simp_all
  with s1 Cons.IH [of p1 w1] show ?case by (cases e1) simp_all
qed

lemma update_env:
  "can_write (snd (snd (update p w))) = can_write w \<and>
   can_open (snd (snd (update p w))) = can_open w \<and>
   files (snd (snd (update p w))) = files w"
  by (simp add: update_unfold process_env) (simp add: log_def)

lemma feed_env:
  "can_write (snd (snd (feed chunks p w))) = can_write w \<and>
   can_open (snd (snd (feed chunks p w))) = can_open w \<and>
   files (snd (snd (feed chunks p w))) = files w"
proof (induction chunks arbitrary: p w)
  case Nil
  then show ?case by simp
next
  case (Cons c cs)
  obtain e1 p1 w1 where u: "update (arrive c p) w = (e1, p1, w1)"
    by (cases "update (arrive c p) w") auto
  from update_env [of "arrive c p" w] u
  have "can_write w1 = can_write w" "can_open w1 = can_open w" "files w1 = files w"
    by simp_all
  with u Cons.IH [of p1 w1] show ?case by (cases e1) simp_all
qed

lemma write_lines_eq:
  "write_lines f ls (buf, w) = (buf @ concat ls, w\<lparr>trace := trace w @ map (FileWrite f) ls\<rparr>)"
  by (induction ls arbitrary: buf w) (simp_all add: log_def)

lemma file_dump_ok:
  "can_write w (port_name p @ lit ''_data.txt'') \<Longrightarrow>
     file_dump p w =
       (None, w\<lparr>trace := trace w @ FileOpen (port_name p @ lit ''_data.txt'') #
                          map (FileWrite (port_name p @ lit ''_data.txt'')) (lines p) @
                          [FileClose (port_name p @ lit ''_data.txt'')],
                 files := (files w)(port_name p @ lit ''_data.txt'' \<mapsto> concat (lines p))\<rparr>)"
  by (simp add: file_dump_def Let_def write_lines_eq log_def)

lemma file_dump_fail:
  "\<not> can_write w (port_name p @ lit ''_data.txt'') \<Longrightarrow>
     file_dump p w = (Some OSError, log (FileOpen (port_name p @ lit ''_data.txt'')) w)"
  by (simp add: file_dump_def Let_def)

lemma since_last_snoc:
  "since_last_delimiter k (xs @ [b]) = (if uint b = k then [] else since_last_delimiter k xs @ [b])"
  by (simp add: since_last_delimiter_def)

lemma since_last_delimiter_last:
  "xs \<noteq> [] \<Longrightarrow> uint (last xs) = k \<Longrightarrow> since_last_delimiter k (ys @ xs) = []"
  by (cases xs rule: rev_cases) (simp_all add: since_last_delimiter_def)

lemma from_bytes_little_nonneg: "0 \<le> from_bytes_little bs"
  by (induction bs) simp_all

lemma from_bytes_little_pos: "\<exists>b\<in>set bs. b \<noteq> 0 \<Longrightarrow> 1 \<le> from_bytes_little bs"
proof (induction bs)
  case Nil
  then show ?case by simp
next
  case (Cons b bs)
  show ?case
  proof (cases "b = 0")
    case True
    with Cons.prems have "\<exists>b\<in>set bs. b \<noteq> 0" by simp
    from Cons.IH [OF this] True show ?thesis by simp
  next
    case False
    then have "uint b \<noteq> 0" by (simp add: uint_0_iff)
    moreover have "0 \<le> uint b" by simp
    ultimately have "1 \<le> uint b" by linarith
    with from_bytes_little_nonneg [of bs] show ?thesis by (simp; linarith)
  qed
qed

lemma from_bytes_little_multibyte:
  "\<exists>b\<in>set (tl delim). b \<noteq> 0 \<Longrightarrow> 256 \<le> from_bytes_little delim"
proof (cases delim)
  case Nil
  assume "\<exists>b\<in>set (tl delim). b \<noteq> 0"
  with Nil show ?thesis by simp
next
  case (Cons b bs)
  assume "\<exists>b\<in>set (tl delim). b \<noteq> 0"
  with Cons have "\<exists>b\<in>set bs. b \<noteq> 0" by simp
  from from_bytes_little_pos [OF this] have "256 \<le> 256 * from_bytes_little bs" by simp
  moreover have "0 \<le> uint b" by simp
  ultimately have "256 \<le> uint b + 256 * from_bytes_little bs" by (rule add_increasing [rotated])
  with Cons show ?thesis by simp
qed

lemma byte_below_256: "uint (b :: byte) < 256"
  using uint_lt2p [of b] by simp

lemma no_delimiter_above_255:
  assumes "256 \<le> k"
  shows "delimiter_free k xs"
  unfolding delimiter_free_def list_all_iff
proof
  fix b :: byte
  from byte_below_256 [of b] assms show "uint b \<noteq> k" by linarith
qed

lemma process_free:
  "delimiter_free (delimeter p) xs \<Longrightarrow> process xs p w = (None, p\<lparr>cache := cache p @ xs\<rparr>, w)"
proof (induction xs arbitrary: p)
  case Nil
  then show ?case by simp
next
  case (Cons b bs)
  from Cons.prems have nb: "uint b \<noteq> delimeter p" and fr: "delimiter_free (delimeter p) bs"
    by (simp_all add: delimiter_free_def)
  from nb have s: "step p w b = (None, p\<lparr>cache := cache p @ [b]\<rparr>, w)" by (simp add: step_def)
  from fr have "delimiter_free (delimeter (p\<lparr>cache := cache p @ [b]\<rparr>)) bs" by simp
  from Cons.IH [OF this] s show ?case by simp
qed

lemma close_all_eq:
  "close_all ps w =
     (map (\<lambda>p. p\<lparr>serial_port := (serial_port p)\<lparr>is_open := False\<rparr>\<rparr>) ps,
      w\<lparr>trace := trace w @ map (\<lambda>p. SerialClose (port_name p)) ps\<rparr>)"
  by (induction ps arbitrary: w) (simp_all add: close_def log_def)

lemma feed_free:
  assumes "rx (serial_port p) = []" and "delimiter_free (delimeter p) (concat chunks)"
  shows "fst (feed chunks p w) = None \<and>
         lines (fst (snd (feed chunks p w))) = lines p \<and>
         cache (fst (snd (feed chunks p w))) = cache p @ concat chunks"
proof -
  from process_free [OF assms(2), of w]
  have pr: "process (concat chunks) p w = (None, p\<lparr>cache := cache p @ concat chunks\<rparr>, w)" .
  from feed_process [OF assms(1), of chunks w w] pr show ?thesis
    by (simp add: same_frame_def)
qed

section \<open>The driver\<close>

lemma init_ok:
  "can_open w name baud_rate \<Longrightarrow>
     init name baud_rate delim verb w =
       (Inr (opened name baud_rate delim verb), log (SerialOpen name baud_rate) w)"
  by (simp add: init_def Let_def opened_def)

lemma init_fail:
  "\<not> can_open w name baud_rate \<Longrightarrow>
     init name baud_rate delim verb w = (Inl SerialException, log (SerialOpen name baud_rate) w)"
  by (simp add: init_def Let_def)

lemma construct_all_fail:
  assumes "\<forall>n\<in>set pre. can_open w n baud_rate" and "\<not> can_open w bad baud_rate"
  shows "construct_all (pre @ bad # rest) baud_rate delim verb acc w =
           (Some SerialException,
            acc @ map (\<lambda>n. opened n baud_rate delim verb) pre,
            w\<lparr>trace := trace w @ map (\<lambda>n. SerialOpen n baud_rate) (pre @ [bad])\<rparr>)"
  using assms
proof (induction pre arbitrary: acc w)
  case Nil
  then show ?case by (simp add: init_fail log_def)
next
  case (Cons n ns)
  from Cons.prems have o: "can_open w n baud_rate" by simp
  let ?w = "log (SerialOpen n baud_rate) w"
  from Cons.prems have a: "\<forall>m\<in>set ns. can_open ?w m baud_rate"
    and b: "\<not> can_open ?w bad baud_rate"
    by (simp_all add: log_def)
  from Cons.IH [OF a b, of "acc @ [opened n baud_rate delim verb]"] o
  show ?case by (simp add: init_ok log_def)
qed

lemma construct_all_ok:
  assumes "\<forall>n\<in>set names. can_open w n baud_rate"
  shows "construct_all names baud_rate delim verb acc w =
           (None,
            acc @ map (\<lambda>n. opened n baud_rate delim verb) names,
            w\<lparr>trace := trace w @ map (\<lambda>n. SerialOpen n baud_rate) names\<rparr>)"
  using assms
proof (induction names arbitrary: acc w)
  case Nil
  then show ?case by simp
next
  case (Cons n ns)
  from Cons.prems have o: "can_open w n baud_rate" by simp
  let ?w = "log (SerialOpen n baud_rate) w"
  from Cons.prems have a: "\<forall>m\<in>set ns. can_open ?w m baud_rate"
    by (simp add: log_def)
  from Cons.IH [OF a, of "acc @ [opened n baud_rate delim verb]"] o
  show ?case by (simp add: init_ok log_def)
qed

lemma process_port_name: "port_name (fst (snd (process data p w))) = port_name p"
proof -
  obtain e p' w' where pr: "process data p w = (e, p', w')"
    by (cases "process data p w") auto
  from process_outcome [OF pr] have "same_frame p' (p\<lparr>lines := lines p', cache := cache p'\<rparr>)"
    by blast
  with pr show ?thesis by (simp add: same_frame_def)
qed

lemma update_port_name: "port_name (fst (snd (update p w))) = port_name p"
  by (simp add: update_unfold process_port_name)

lemma poll_loop_names:
  "map port_name (fst (snd (poll_loop sched i ps w))) = map port_name ps \<and>
   can_write (snd (snd (poll_loop sched i ps w))) = can_write w"
proof (induction sched arbitrary: i ps w)
  case Nil
  then show ?case by simp
next
  case (Cons c cs)
  show ?case
  proof (cases "i < length ps")
    case False
    then show ?thesis by simp
  next
    case True
    obtain e1 p1 w1 where u: "update (arrive c (ps ! i)) w = (e1, p1, w1)"
      by (cases "update (arrive c (ps ! i)) w") auto
    from update_port_name [of "arrive c (ps ! i)" w] u
    have n: "port_name p1 = port_name (ps ! i)" by (simp add: arrive_def)
    from update_env [of "arrive c (ps ! i)" w] u have cw: "can_write w1 = can_write w" by simp
    from n True have m: "map port_name (ps[i := p1]) = map port_name ps"
      by (simp add: map_update list_update_same_conv)
    show ?thesis
    proof (cases e1)
      case None
      with True u m cw Cons.IH [of "if Suc i < length ps then Suc i else 0" "ps[i := p1]" w1]
      show ?thesis by simp
    next
      case (Some e)
      with True u m cw show ?thesis by simp
    qed
  qed
qed

lemma construct_all_names:
  "construct_all names baud_rate delim verb acc w = (None, ps, w1) \<Longrightarrow>
     map port_name ps = map port_name acc @ names \<and> can_write w1 = can_write w"
proof (induction names arbitrary: acc w)
  case Nil
  then show ?case by simp
next
  case (Cons n ns)
  show ?case
  proof (cases "can_open w n baud_rate")
    case False
    with Cons.prems show ?thesis by (simp add: init_fail)
  next
    case True
    with Cons.prems
    have "construct_all ns baud_rate delim verb (acc @ [opened n baud_rate delim verb])
            (log (SerialOpen n baud_rate) w) = (None, ps, w1)"
      by (simp add: init_ok)
    from Cons.IH [OF this] show ?thesis by (simp add: opened_def log_def)
  qed
qed

lemma dump_all_ok:
  "\<forall>p\<in>set ps. can_write w (port_name p @ lit ''_data.txt'') \<Longrightarrow>
     fst (dump_all ps w) = None \<and>
     trace (snd (dump_all ps w)) = trace w @ concat (map dump_events ps)"
proof (induction ps arbitrary: w)
  case Nil
  then show ?case by simp
next
  case (Cons p ps)
  let ?w1 = "log (Print (lit ''Saving data from port '' @ port_name p)) w"
  from Cons.prems have c: "can_write ?w1 (port_name p @ lit ''_data.txt'')"
    by (simp add: log_def)
  let ?w2 = "?w1\<lparr>trace := trace ?w1 @ FileOpen (port_name p @ lit ''_data.txt'') #
                          map (FileWrite (port_name p @ lit ''_data.txt'')) (lines p) @
                          [FileClose (port_name p @ lit ''_data.txt'')],
                 files := (files ?w1)(port_name p @ lit ''_data.txt'' \<mapsto> concat (lines p))\<rparr>"
  from file_dump_ok [OF c] have fd: "file_dump p ?w1 = (None, ?w2)" .
  from Cons.prems have "\<forall>q\<in>set ps. can_write ?w2 (port_name q @ lit ''_data.txt'')"
    by (simp add: log_def)
  from Cons.IH [OF this] fd show ?case by (simp add: Let_def dump_events_def log_def)
qed

section \<open>Properties of one pipeline\<close>

text \<open>
  C1 (framing correctness), as amended. A pipeline with an empty cache, no record, nothing
  pending and the single-byte delimiter \<open>d\<close> is fed a byte sequence in any number of
  chunks. When verbose is off no call of \<open>update\<close> raises. Whenever none raises, with
  verbose on or off, the pipeline holds exactly as many records as the sequence holds
  bytes \<open>d\<close>, no record and not the cache holds \<open>d\<close>, and the records, each followed
  by \<open>d\<close>, followed by the cache, spell the sequence: every record is the run of bytes
  before the first delimiter or between two consecutive ones, in order. Nothing is said
  here of when a verbose pipeline does not raise.
\<close>

theorem framing_correctness:
  assumes "rx (serial_port p) = []" and "cache p = []" and "lines p = []"
    and "delimeter p = uint d"
  shows "(\<not> verbose p \<longrightarrow> fst (feed chunks p w) = None) \<and>
         (fst (feed chunks p w) = None \<longrightarrow>
            length (lines (fst (snd (feed chunks p w)))) = count_list (concat chunks) d \<and>
            (\<forall>r \<in> set (lines (fst (snd (feed chunks p w)))). d \<notin> set r) \<and>
            d \<notin> set (cache (fst (snd (feed chunks p w)))) \<and>
            concat (map (\<lambda>r. r @ [d]) (lines (fst (snd (feed chunks p w))))) @
              cache (fst (snd (feed chunks p w))) = concat chunks)"
proof (intro conjI impI)
  assume "\<not> verbose p"
  with assms(1) show "fst (feed chunks p w) = None" by (rule feed_quiet)
next
  assume ok: "fst (feed chunks p w) = None"
  let ?q = "fst (snd (feed chunks p w))"
  from feed_None [OF assms(1) ok] assms
  have l: "lines ?q = fst (frame (uint d) (concat chunks) ([], []))"
    and c: "cache ?q = snd (frame (uint d) (concat chunks) ([], []))"
    by simp_all
  have fr: "delimiter_free (uint d) []" "list_all (delimiter_free (uint d)) []"
    by (simp_all add: delimiter_free_def)
  from l show "length (lines ?q) = count_list (concat chunks) d"
    by (simp add: frame_count delimiter_count_uint)
  from frame_free [OF fr, of "concat chunks"] l c
  have a: "list_all (delimiter_free (uint d)) (lines ?q)" and b: "delimiter_free (uint d) (cache ?q)"
    by simp_all
  from a show "\<forall>r \<in> set (lines ?q). d \<notin> set r"
    by (simp add: list_all_iff delimiter_free_uint)
  from b show "d \<notin> set (cache ?q)" by (simp add: delimiter_free_uint)
  from frame_rebuild [of d "concat chunks" "[]" "[]"] l c
  show "concat (map (\<lambda>r. r @ [d]) (lines ?q)) @ cache ?q = concat chunks" by simp
qed

theorem framing_correctness_witness:
  "rx (serial_port (fresh False)) = [] \<and> cache (fresh False) = [] \<and> lines (fresh False) = [] \<and>
   delimeter (fresh False) = uint (0x0A :: byte) \<and> \<not> verbose (fresh False) \<and>
   fst (feed [[0x41, 0x42, 0x0A, 0x43], [0x44, 0x0A]] (fresh False) world0) = None \<and>
   lines (fst (snd (feed [[0x41, 0x42, 0x0A, 0x43], [0x44, 0x0A]] (fresh False) world0))) =
     [[0x41, 0x42], [0x43, 0x44]] \<and>
   length (lines (fst (snd (feed [[0x41, 0x42, 0x0A, 0x43], [0x44, 0x0A]] (fresh False) world0)))) =
     count_list (concat [[0x41, 0x42, 0x0A, 0x43], [0x44, 0x0A]]) (0x0A :: byte) \<and>
   rx (serial_port (fresh True)) = [] \<and> cache (fresh True) = [] \<and> lines (fresh True) = [] \<and>
   delimeter (fresh True) = uint (0x0A :: byte) \<and> verbose (fresh True) \<and>
   fst (feed [[0x41, 0x0A], [0x43, 0x44, 0x0A, 0x42]] (fresh True) world0) = None \<and>
   lines (fst (snd (feed [[0x41, 0x0A], [0x43, 0x44, 0x0A, 0x42]] (fresh True) world0))) =
     [[0x41], [0x43, 0x44]] \<and>
   cache (fst (snd (feed [[0x41, 0x0A], [0x43, 0x44, 0x0A, 0x42]] (fresh True) world0))) = [0x42] \<and>
   length (lines (fst (snd (feed [[0x41, 0x0A], [0x43, 0x44, 0x0A, 0x42]] (fresh True) world0)))) =
     count_list (concat [[0x41, 0x0A], [0x43, 0x44, 0x0A, 0x42]]) (0x0A :: byte)"
proof -
  have f1: "rx (serial_port (fresh False)) = []" and f2: "cache (fresh False) = []"
    and f3: "lines (fresh False) = []" and f4: "delimeter (fresh False) = uint (0x0A :: byte)"
    and f5: "\<not> verbose (fresh False)"
    by (simp_all add: fresh_def)
  have t1: "rx (serial_port (fresh True)) = []" and t2: "cache (fresh True) = []"
    and t3: "lines (fresh True) = []" and t4: "delimeter (fresh True) = uint (0x0A :: byte)"
    and t5: "verbose (fresh True)"
    by (simp_all add: fresh_def)
  note quiet = framing_correctness [OF f1 f2 f3 f4, of "[[0x41, 0x42, 0x0A, 0x43], [0x44, 0x0A]]" world0]
  note loud = framing_correctness [OF t1 t2 t3 t4, of "[[0x41, 0x0A], [0x43, 0x44, 0x0A, 0x42]]" world0]
  from quiet f5
  have nf: "fst (feed [[0x41, 0x42, 0x0A, 0x43], [0x44, 0x0A]] (fresh False) world0) = None"
    by blast
  with quiet
  have cf: "length (lines (fst (snd (feed [[0x41, 0x42, 0x0A, 0x43], [0x44, 0x0A]] (fresh False) world0)))) =
     count_list (concat [[0x41, 0x42, 0x0A, 0x43], [0x44, 0x0A]]) (0x0A :: byte)"
    by blast
  have lf: "lines (fst (snd (feed [[0x41, 0x42, 0x0A, 0x43], [0x44, 0x0A]] (fresh False) world0))) =
     [[0x41, 0x42], [0x43, 0x44]]"
    by (simp add: run_simps)
  have nt: "fst (feed [[0x41, 0x0A], [0x43, 0x44, 0x0A, 0x42]] (fresh True) world0) = None"
    by (simp add: run_simps)
  with loud
  have ct: "length (lines (fst (snd (feed [[0x41, 0x0A], [0x43, 0x44, 0x0A, 0x42]] (fresh True) world0)))) =
     count_list (concat [[0x41, 0x0A], [0x43, 0x44, 0x0A, 0x42]]) (0x0A :: byte)"
    by blast
  have lt: "lines (fst (snd (feed [[0x41, 0x0A], [0x43, 0x44, 0x0A, 0x42]] (fresh True) world0))) =
     [[0x41], [0x43, 0x44]]"
    by (simp add: run_simps)
  have kt: "cache (fst (snd (feed [[0x41, 0x0A], [0x43, 0x44, 0x0A, 0x42]] (fresh True) world0))) = [0x42]"
    by (simp add: run_simps)
  from f1 f2 f3 f4 f5 nf lf cf t1 t2 t3 t4 t5 nt lt kt ct show ?thesis by (intro conjI)
qed

text \<open>
  The claim as stated, for any byte sequence, fails for a verbose pipeline: the sequence
  \<open>FF 0A\<close> holds the delimiter once, \<open>update\<close> raises while decoding \<open>FF\<close>, and no
  record is emitted.
\<close>

theorem framing_verbose_counterexample:
  "rx (serial_port (fresh True)) = [] \<and> cache (fresh True) = [] \<and> lines (fresh True) = [] \<and>
   delimeter (fresh True) = uint (0x0A :: byte) \<and>
   count_list (concat [[0xFF, 0x0A]]) (0x0A :: byte) = 1 \<and>
   fst (feed [[0xFF, 0x0A]] (fresh True) world0) = Some UnicodeDecodeError \<and>
   lines (fst (snd (feed [[0xFF, 0x0A]] (fresh True) world0))) = []"
  by (simp add: run_simps)


text \<open>
  C2 (split-read invariance). A pipeline with nothing pending ends with the same
  records, the same cache and the same outcome whether a byte sequence arrives in one
  chunk, read by one call of \<open>update\<close>, or cut into any consecutive chunks, each read
  by a call of its own.
\<close>

theorem split_read_invariance:
  "rx (serial_port p) = [] \<Longrightarrow>
     fst (feed chunks p w) = fst (feed [concat chunks] p w) \<and>
     lines (fst (snd (feed chunks p w))) = lines (fst (snd (feed [concat chunks] p w))) \<and>
     cache (fst (snd (feed chunks p w))) = cache (fst (snd (feed [concat chunks] p w)))"
  using feed_process [of p chunks w w] feed_process [of p "[concat chunks]" w w]
  by (simp add: same_frame_def)

theorem split_read_invariance_witness:
  "rx (serial_port (fresh True)) = [] \<and>
   lines (fst (snd (feed [[0x41], [0x0A, 0x42]] (fresh True) world0))) =
   lines (fst (snd (feed [[0x41, 0x0A, 0x42]] (fresh True) world0))) \<and>
   cache (fst (snd (feed [[0x41], [0x0A, 0x42]] (fresh True) world0))) =
   cache (fst (snd (feed [[0x41, 0x0A, 0x42]] (fresh True) world0)))"
  using split_read_invariance [of "fresh True" "[[0x41], [0x0A, 0x42]]" world0]
  by (simp add: fresh_def)

text \<open>
  C6 (empty poll). When no byte waits, \<open>update\<close> returns without an exception, leaves
  the pipeline as it was (cache, records and connection), and the only thing done
  outside the process is the availability check: no read, no print.
\<close>

theorem empty_poll_noop:
  "in_waiting (serial_port p) = 0 \<Longrightarrow>
     update p w = (None, p, w\<lparr>trace := trace w @ [InWaiting (port_name p)]\<rparr>)"
  by (simp add: update_def log_def)

theorem empty_poll_noop_witness:
  "in_waiting (serial_port (fresh True)) = 0 \<and>
   update (fresh True) world0 =
     (None, fresh True, world0\<lparr>trace := trace world0 @ [InWaiting (port_name (fresh True))]\<rparr>)"
  using empty_poll_noop [of "fresh True" world0]
  by (simp add: fresh_def in_waiting_def)

text \<open>
C3 (dump round-trip), as amended. A pipeline with an empty cache, no record and
  nothing pending is fed a byte sequence, no call of \<open>update\<close> raising, and is then
  dumped, the file opening. The writes of \<open>file_dump\<close> are the records in order, one
  write each, and the file \<open>port_name + "_data.txt"\<close> then holds their concatenation:
  the input up to its last delimiter with every delimiter byte removed. The bytes after
  the last delimiter are still in the cache and are not written.
\<close>

theorem dump_round_trip:
  assumes "rx (serial_port p) = []" and "cache p = []" and "lines p = []"
    and "feed chunks p w = (None, p', w')"
    and "file_dump p' w' = (None, w'')"
  shows "files w'' (port_name p @ lit ''_data.txt'') =
           Some (without_delimiter (delimeter p)
                   (upto_last_delimiter (delimeter p) (concat chunks))) \<and>
         trace w'' = trace w' @ FileOpen (port_name p @ lit ''_data.txt'') #
                       map (FileWrite (port_name p @ lit ''_data.txt'')) (lines p') @
                       [FileClose (port_name p @ lit ''_data.txt'')] \<and>
         concat (lines p') =
           without_delimiter (delimeter p) (upto_last_delimiter (delimeter p) (concat chunks))"
proof -
  from feed_outcome [OF assms(1) assms(4)] assms(2,3)
  have l: "lines p' = fst (frame (delimeter p) (concat chunks) ([], []))"
    and n: "port_name p' = port_name p"
    by (auto simp: prod_eq_iff)
  from l have c: "concat (lines p') =
      without_delimiter (delimeter p) (upto_last_delimiter (delimeter p) (concat chunks))"
    by (simp add: frame_dumped)
  have cw: "can_write w' (port_name p' @ lit ''_data.txt'')"
  proof (rule ccontr)
    assume "\<not> can_write w' (port_name p' @ lit ''_data.txt'')"
    from file_dump_fail [OF this] assms(5) show False by simp
  qed
  from file_dump_ok [OF cw] assms(5)
  have "w'' = w'\<lparr>trace := trace w' @ FileOpen (port_name p' @ lit ''_data.txt'') #
                          map (FileWrite (port_name p' @ lit ''_data.txt'')) (lines p') @
                          [FileClose (port_name p' @ lit ''_data.txt'')],
                 files := (files w')(port_name p' @ lit ''_data.txt'' \<mapsto> concat (lines p'))\<rparr>"
    by simp
  with n c show ?thesis by simp
qed

theorem dump_round_trip_witness:
  "rx (serial_port (fresh True)) = [] \<and> cache (fresh True) = [] \<and> lines (fresh True) = [] \<and>
   feed [[0x41, 0x0A, 0x42], [0x0A, 0x43]] (fresh True) world0 =
     (None, (fresh True)\<lparr>cache := [0x43], lines := [[0x41], [0x42]]\<rparr>,
      world0\<lparr>trace := [InWaiting (lit ''A''), SerialRead (lit ''A'') 3, Print (lit ''A: A''),
                        InWaiting (lit ''A''), SerialRead (lit ''A'') 2, Print (lit ''A: B'')]\<rparr>) \<and>
   file_dump ((fresh True)\<lparr>cache := [0x43], lines := [[0x41], [0x42]]\<rparr>)
      (world0\<lparr>trace := [InWaiting (lit ''A''), SerialRead (lit ''A'') 3, Print (lit ''A: A''),
                        InWaiting (lit ''A''), SerialRead (lit ''A'') 2, Print (lit ''A: B'')]\<rparr>) =
     (None, snd (file_dump ((fresh True)\<lparr>cache := [0x43], lines := [[0x41], [0x42]]\<rparr>)
      (world0\<lparr>trace := [InWaiting (lit ''A''), SerialRead (lit ''A'') 3, Print (lit ''A: A''),
                        InWaiting (lit ''A''), SerialRead (lit ''A'') 2, Print (lit ''A: B'')]\<rparr>))) \<and>
   files (snd (file_dump ((fresh True)\<lparr>cache := [0x43], lines := [[0x41], [0x42]]\<rparr>)
      (world0\<lparr>trace := [InWaiting (lit ''A''), SerialRead (lit ''A'') 3, Print (lit ''A: A''),
                        InWaiting (lit ''A''), SerialRead (lit ''A'') 2, Print (lit ''A: B'')]\<rparr>)))
     (port_name (fresh True) @ lit ''_data.txt'') = Some [0x41, 0x42]"
proof -
  let ?p = "(fresh True)\<lparr>cache := [0x43], lines := [[0x41], [0x42]]\<rparr>"
  let ?w = "world0\<lparr>trace := [InWaiting (lit ''A''), SerialRead (lit ''A'') 3, Print (lit ''A: A''),
                        InWaiting (lit ''A''), SerialRead (lit ''A'') 2, Print (lit ''A: B'')]\<rparr>"
  have a1: "rx (serial_port (fresh True)) = []" and a2: "cache (fresh True) = []"
    and a3: "lines (fresh True) = []"
    by (simp_all add: fresh_def)
  have b: "feed [[0x41, 0x0A, 0x42], [0x0A, 0x43]] (fresh True) world0 = (None, ?p, ?w)"
    by (simp add: run_simps)
  have c: "file_dump ?p ?w = (None, snd (file_dump ?p ?w))"
    by (simp add: file_dump_def Let_def run_simps)
  have v: "without_delimiter (delimeter (fresh True))
             (upto_last_delimiter (delimeter (fresh True))
                (concat [[0x41, 0x0A, 0x42], [0x0A, 0x43]])) = [0x41, 0x42]"
    by (simp add: fresh_def without_delimiter_def upto_last_delimiter_def)
  from dump_round_trip [OF a1 a2 a3 b c]
  have "files (snd (file_dump ?p ?w)) (port_name (fresh True) @ lit ''_data.txt'') =
          Some (without_delimiter (delimeter (fresh True))
             (upto_last_delimiter (delimeter (fresh True))
                (concat [[0x41, 0x0A, 0x42], [0x0A, 0x43]])))"
    by (rule conjunct1)
  then have r: "files (snd (file_dump ?p ?w)) (port_name (fresh True) @ lit ''_data.txt'') =
          Some [0x41, 0x42]"
    by (simp only: v)
  from a1 a2 a3 b c r show ?thesis by blast
qed

text \<open>
The claim as stated fails when the input does not end with a delimiter: after
  \<open>b"XY"\<close> the dump writes an empty file, and the input with every delimiter removed
  is \<open>b"XY"\<close>.
\<close>

theorem dump_round_trip_counterexample:
  "fst (feed [[0x58, 0x59]] (fresh False) world0) = None \<and>
   files (snd (file_dump (fst (snd (feed [[0x58, 0x59]] (fresh False) world0)))
                         (snd (snd (feed [[0x58, 0x59]] (fresh False) world0)))))
     (lit ''A_data.txt'') = Some [] \<and>
   without_delimiter (delimeter (fresh False)) (concat [[0x58, 0x59]]) = [0x58, 0x59]"
  by (simp add: run_simps file_dump_def Let_def without_delimiter_def)

text \<open>
C4 (cache invariant). The byte loop of \<open>update\<close> starts with a cache that holds no
  delimiter byte (as the constructor leaves it) and runs over any prefix of the input.
  Whatever the outcome, the cache then holds no delimiter byte, and the records present
  before are still the first records, unchanged. The prefix splits into the bytes
  processed and the rest: the rest is empty unless the loop raised, and then it starts
  with the delimiter byte whose decoding failed; the cache is what followed the last
  delimiter among the cache at the start and the bytes processed (all of it when there
  is no delimiter); and it is empty when the last byte processed is a delimiter.
\<close>

theorem cache_invariant:
  assumes "delimiter_free (delimeter p) (cache p)"
    and "process (take n data) p w = (e, p', w')"
  shows "delimiter_free (delimeter p) (cache p') \<and>
         prefix (lines p) (lines p') \<and>
         (\<exists>done rest. take n data = done @ rest \<and>
            (e = None \<longrightarrow> rest = []) \<and>
            (e \<noteq> None \<longrightarrow> rest \<noteq> [] \<and> uint (hd rest) = delimeter p) \<and>
            cache p' = since_last_delimiter (delimeter p) (cache p @ done) \<and>
            (done \<noteq> [] \<and> uint (last done) = delimeter p \<longrightarrow> cache p' = []))"
proof -
  from process_outcome [OF assms(2)] obtain dn rest where
    d: "take n data = dn @ rest"
    and f: "(lines p', cache p') = frame (delimeter p) dn (lines p, cache p)"
    and c: "(case e of
           None \<Rightarrow> rest = []
         | Some x \<Rightarrow> x = UnicodeDecodeError \<and> verbose p \<and> decode_utf8 (cache p') = None \<and>
                     (\<exists>b bs. rest = b # bs \<and> uint b = delimeter p))"
    by blast
  from f have l: "lines p' = fst (frame (delimeter p) dn (lines p, cache p))"
    and ca: "cache p' = snd (frame (delimeter p) dn (lines p, cache p))"
    by (simp_all add: prod_eq_iff)
  from ca frame_cache [OF assms(1), of dn "lines p"]
  have sl: "cache p' = since_last_delimiter (delimeter p) (cache p @ dn)" by simp
  then have fr: "delimiter_free (delimeter p) (cache p')" by (simp add: since_last_free)
  from l frame_prefix [of "delimeter p" dn "lines p" "cache p"]
  have pre: "prefix (lines p) (lines p')" by (auto simp: prefix_def)
  from c have e1: "e = None \<longrightarrow> rest = []"
    and e2: "e \<noteq> None \<longrightarrow> rest \<noteq> [] \<and> uint (hd rest) = delimeter p"
    by (cases e; auto)+
  from sl have z: "dn \<noteq> [] \<and> uint (last dn) = delimeter p \<longrightarrow> cache p' = []"
    by (simp add: since_last_delimiter_last)
  from d e1 e2 sl z have "\<exists>done rest. take n data = done @ rest \<and>
            (e = None \<longrightarrow> rest = []) \<and>
            (e \<noteq> None \<longrightarrow> rest \<noteq> [] \<and> uint (hd rest) = delimeter p) \<and>
            cache p' = since_last_delimiter (delimeter p) (cache p @ done) \<and>
            (done \<noteq> [] \<and> uint (last done) = delimeter p \<longrightarrow> cache p' = [])"
    by blast
  with fr pre show ?thesis by blast
qed

theorem cache_invariant_witness:
  "delimiter_free (delimeter (fresh True)) (cache (fresh True)) \<and>
   process (take 3 [0x41, 0x0A, 0x42, 0x43]) (fresh True) world0 =
     (None, (fresh True)\<lparr>cache := [0x42], lines := [[0x41]]\<rparr>,
      world0\<lparr>trace := [Print (lit ''A: A'')]\<rparr>) \<and>
   delimiter_free (delimeter (fresh True))
     (cache ((fresh True)\<lparr>cache := [0x42], lines := [[0x41]]\<rparr>)) \<and>
   prefix (lines (fresh True)) (lines ((fresh True)\<lparr>cache := [0x42], lines := [[0x41]]\<rparr>))"
proof -
  have a: "delimiter_free (delimeter (fresh True)) (cache (fresh True))"
    by (simp add: fresh_def delimiter_free_def)
  have b: "process (take 3 [0x41, 0x0A, 0x42, 0x43]) (fresh True) world0 =
     (None, (fresh True)\<lparr>cache := [0x42], lines := [[0x41]]\<rparr>,
      world0\<lparr>trace := [Print (lit ''A: A'')]\<rparr>)"
    by (simp add: run_simps)
  from cache_invariant [OF a b] a b show ?thesis by blast
qed

text \<open>
C5 (partial record discarded at shutdown). A pipeline with an empty cache, no record
  and nothing pending receives bytes that hold no delimiter (such as \<open>b"XY"\<close>). No call
  of \<open>update\<close> raises, also in verbose mode, the record list stays empty and the bytes
  sit in the cache. The shutdown of \<open>main\<close> with \<open>save_to_file\<close> set, run on this
  pipeline with its file openable, then closes and dumps it without an exception: the
  record list is still empty, the cache still holds the bytes, and the file
  \<open>port_name + "_data.txt"\<close> exists and is empty.
\<close>

theorem partial_record_discarded:
  assumes "rx (serial_port p) = []" and "lines p = []" and "cache p = []"
    and "delimiter_free (delimeter p) (concat chunks)"
    and "can_write w (port_name p @ lit ''_data.txt'')"
  shows "fst (feed chunks p w) = None \<and>
         lines (fst (snd (feed chunks p w))) = [] \<and>
         cache (fst (snd (feed chunks p w))) = concat chunks \<and>
         fst (shutdown True [fst (snd (feed chunks p w))] (snd (snd (feed chunks p w)))) = None \<and>
         map lines (fst (snd (shutdown True [fst (snd (feed chunks p w))]
                                 (snd (snd (feed chunks p w)))))) = [[]] \<and>
         map cache (fst (snd (shutdown True [fst (snd (feed chunks p w))]
                                 (snd (snd (feed chunks p w)))))) = [concat chunks] \<and>
         files (snd (snd (shutdown True [fst (snd (feed chunks p w))]
                            (snd (snd (feed chunks p w))))))
           (port_name p @ lit ''_data.txt'') = Some []"
proof -
  obtain e p' w' where fd: "feed chunks p w = (e, p', w')"
    by (cases "feed chunks p w") auto
  from feed_outcome [OF assms(1) fd] obtain dn rest where
    d: "concat chunks = dn @ rest"
    and f: "(lines p', cache p') = frame (delimeter p) dn (lines p, cache p)"
    and n: "port_name p' = port_name p"
    and c: "(case e of
           None \<Rightarrow> rest = []
         | Some x \<Rightarrow> x = UnicodeDecodeError \<and> verbose p \<and> decode_utf8 (cache p') = None \<and>
                     (\<exists>b bs. rest = b # bs \<and> uint b = delimeter p))"
    by blast
  from assms(4) d have fr: "delimiter_free (delimeter p) dn" "delimiter_free (delimeter p) rest"
    by (simp_all add: delimiter_free_def)
  have e: "e = None"
  proof (cases e)
    case None
    then show ?thesis .
  next
    case (Some x)
    with c obtain b bs where "rest = b # bs" "uint b = delimeter p" by auto
    with fr(2) show ?thesis by (simp add: delimiter_free_def)
  qed
  with c d have dn: "dn = concat chunks" by simp
  from f fr(1) assms(2,3) dn have l: "lines p' = []" and ca: "cache p' = concat chunks"
    by (simp_all add: frame_free_input)
  from feed_env [of chunks p w] fd assms(5) n
  have cw: "can_write w' (port_name p' @ lit ''_data.txt'')" by simp
  let ?q = "p'\<lparr>serial_port := (serial_port p')\<lparr>is_open := False\<rparr>\<rparr>"
  let ?v = "(log (Print (lit ''Saving data from port '' @ port_name p'))
              ((log (Print (lit ''Closing all serial ports!'')) w')
                 \<lparr>trace := trace (log (Print (lit ''Closing all serial ports!'')) w') @
                            [SerialClose (port_name p')]\<rparr>))"
  have cv: "can_write ?v (port_name ?q @ lit ''_data.txt'')" using cw by (simp add: log_def)
  have sh: "shutdown True [p'] w' = (fst (file_dump ?q ?v), [?q], snd (file_dump ?q ?v))"
    by (simp add: shutdown_def close_all_eq Let_def split: prod.splits option.splits)
  from file_dump_ok [OF cv] l
  have fdp: "fst (file_dump ?q ?v) = None"
    and fl: "files (snd (file_dump ?q ?v)) (port_name p' @ lit ''_data.txt'') = Some []"
    by simp_all
  from fd e l ca sh fdp fl n show ?thesis by simp
qed

theorem partial_record_discarded_witness:
  "rx (serial_port (fresh True)) = [] \<and> lines (fresh True) = [] \<and> cache (fresh True) = [] \<and>
   delimiter_free (delimeter (fresh True)) (concat [[0x58, 0x59]]) \<and>
   can_write world0 (port_name (fresh True) @ lit ''_data.txt'') \<and>
   lines (fst (snd (feed [[0x58, 0x59]] (fresh True) world0))) = [] \<and>
   files (snd (snd (shutdown True [fst (snd (feed [[0x58, 0x59]] (fresh True) world0))]
                            (snd (snd (feed [[0x58, 0x59]] (fresh True) world0))))))
           (port_name (fresh True) @ lit ''_data.txt'') = Some []"
proof -
  have a1: "rx (serial_port (fresh True)) = []" and a2: "lines (fresh True) = []"
    and a3: "cache (fresh True) = []"
    and a4: "delimiter_free (delimeter (fresh True)) (concat [[0x58, 0x59]])"
    and a5: "can_write world0 (port_name (fresh True) @ lit ''_data.txt'')"
    by (simp_all add: fresh_def world0_def delimiter_free_def)
  from partial_record_discarded [OF a1 a2 a3 a4 a5] a1 a2 a3 a4 a5 show ?thesis by blast
qed

text \<open>
C9 (multi-byte delimiter), as amended. When the delimiter given to the constructor
  has a non-zero byte after its first byte (as every multi-byte UTF-8 character has), the
  integer stored by the little-endian \<open>int.from_bytes\<close> is at least 256 and equals no
  byte; whatever is then fed to the pipeline, in either verbose setting, no call of
  \<open>update\<close> raises, no record is ever emitted and every byte received is in the cache.
\<close>

theorem multibyte_delimiter:
  assumes "\<exists>b\<in>set (tl delim). b \<noteq> 0"
    and "init name baud_rate delim verb w = (Inr p, w1)"
  shows "256 \<le> delimeter p \<and> (\<forall>b :: byte. uint b \<noteq> delimeter p) \<and>
         fst (feed chunks p w1) = None \<and>
         lines (fst (snd (feed chunks p w1))) = [] \<and>
         cache (fst (snd (feed chunks p w1))) = concat chunks"
proof -
  from assms(2)
  have "p = \<lparr>port_name = name,
             serial_port = \<lparr>port = name, baudrate = baud_rate, rx = [], is_open = True\<rparr>,
             delimeter = from_bytes_little delim, verbose = verb, cache = [], lines = []\<rparr>"
    by (simp add: init_def Let_def split: if_splits)
  then have d: "delimeter p = from_bytes_little delim"
    and r: "rx (serial_port p) = []" and l: "lines p = []" and c: "cache p = []"
    by simp_all
  from d from_bytes_little_multibyte [OF assms(1)] have k: "256 \<le> delimeter p" by simp
  have nb: "\<forall>b :: byte. uint b \<noteq> delimeter p"
  proof
    fix b :: byte
    from byte_below_256 [of b] k show "uint b \<noteq> delimeter p" by linarith
  qed
  from feed_free [OF r no_delimiter_above_255 [OF k], of chunks w1] l c k nb
  show ?thesis by simp
qed

theorem multibyte_delimiter_witness:
  "(\<exists>b\<in>set (tl [0xC3, 0xA9 :: byte]). b \<noteq> 0) \<and>
   init (lit ''A'') 115200 [0xC3, 0xA9] False world0 =
     (Inr ((fresh False)\<lparr>delimeter := 43459\<rparr>),
      world0\<lparr>trace := [SerialOpen (lit ''A'') 115200]\<rparr>) \<and>
   256 \<le> delimeter ((fresh False)\<lparr>delimeter := 43459\<rparr>) \<and>
   lines (fst (snd (feed [[0xC3, 0xA9, 0x0A]] ((fresh False)\<lparr>delimeter := 43459\<rparr>)
                      (world0\<lparr>trace := [SerialOpen (lit ''A'') 115200]\<rparr>)))) = [] \<and>
   cache (fst (snd (feed [[0xC3, 0xA9, 0x0A]] ((fresh False)\<lparr>delimeter := 43459\<rparr>)
                      (world0\<lparr>trace := [SerialOpen (lit ''A'') 115200]\<rparr>)))) =
     concat [[0xC3, 0xA9, 0x0A]]"
proof -
  have a: "\<exists>b\<in>set (tl [0xC3, 0xA9 :: byte]). b \<noteq> 0" by simp
  have b: "init (lit ''A'') 115200 [0xC3, 0xA9] False world0 =
     (Inr ((fresh False)\<lparr>delimeter := 43459\<rparr>),
      world0\<lparr>trace := [SerialOpen (lit ''A'') 115200]\<rparr>)"
    by (simp add: init_def Let_def fresh_def world0_def log_def lit_def)
  from multibyte_delimiter [OF a b, of "[[0xC3, 0xA9, 0x0A]]"] a b show ?thesis by blast
qed

text \<open>
The claim as stated, for every delimiter longer than one byte, fails when the bytes
  after the first are zero: \<open>b"A\\x00"\<close> has length two and is stored as 65, so the byte
  \<open>0x41\<close> ends a record.
\<close>

theorem multibyte_delimiter_counterexample:
  "1 < length [0x41, 0x00 :: byte] \<and>
   from_bytes_little [0x41, 0x00] = 65 \<and>
   init (lit ''A'') 115200 [0x41, 0x00] False world0 =
     (Inr ((fresh False)\<lparr>delimeter := 65\<rparr>),
      world0\<lparr>trace := [SerialOpen (lit ''A'') 115200]\<rparr>) \<and>
   uint (0x41 :: byte) = delimeter ((fresh False)\<lparr>delimeter := 65\<rparr>) \<and>
   lines (fst (snd (feed [[0x58, 0x41]] ((fresh False)\<lparr>delimeter := 65\<rparr>)
                      (world0\<lparr>trace := [SerialOpen (lit ''A'') 115200]\<rparr>)))) = [[0x58]] \<and>
   cache (fst (snd (feed [[0x58, 0x41]] ((fresh False)\<lparr>delimeter := 65\<rparr>)
                      (world0\<lparr>trace := [SerialOpen (lit ''A'') 115200]\<rparr>)))) = []"
  by (simp add: init_def Let_def run_simps)



section \<open>Properties of the driver\<close>

text \<open>
  C8 (fatal startup error). When the ports before some port open and that port does
  not, \<open>main\<close> ends with the \<open>SerialException\<close> of the constructor. Everything done by
  then is the opening of the ports up to and including the failing one, in list order:
  no port after it is tried, nothing is printed, no pipeline is polled, closed or
  dumped. The pipelines built for the ports before it are as the constructor left them.
\<close>

theorem fatal_startup_error:
  assumes "\<forall>n\<in>set pre. can_open w n baud_rate" and "\<not> can_open w bad baud_rate"
  shows "main (pre @ bad # rest) baud_rate delim verb save_to_file sched w =
           (Some SerialException,
            map (\<lambda>n. opened n baud_rate delim verb) pre,
            w\<lparr>trace := trace w @ map (\<lambda>n. SerialOpen n baud_rate) (pre @ [bad])\<rparr>)"
  using construct_all_fail [OF assms, of rest delim verb "[]"]
  by (simp add: main_def)

theorem fatal_startup_error_witness:
  "can_open (world0\<lparr>can_open := \<lambda>n b. n \<noteq> lit ''B''\<rparr>) (lit ''A'') 115200 \<and>
   \<not> can_open (world0\<lparr>can_open := \<lambda>n b. n \<noteq> lit ''B''\<rparr>) (lit ''B'') 115200 \<and>
   main ([lit ''A''] @ lit ''B'' # [lit ''C'']) 115200 [0x0A] True True [[0x41, 0x0A]]
        (world0\<lparr>can_open := \<lambda>n b. n \<noteq> lit ''B''\<rparr>) =
     (Some SerialException, [fresh True],
      world0\<lparr>can_open := \<lambda>n b. n \<noteq> lit ''B'',
             trace := [SerialOpen (lit ''A'') 115200, SerialOpen (lit ''B'') 115200]\<rparr>)"
proof -
  let ?w = "world0\<lparr>can_open := \<lambda>n b. n \<noteq> lit ''B''\<rparr>"
  have a: "\<forall>n\<in>set [lit ''A'']. can_open ?w n 115200" by (simp add: world0_def lit_def)
  have b: "\<not> can_open ?w (lit ''B'') 115200" by (simp add: world0_def)
  from fatal_startup_error [OF a b, of "[lit ''C'']" "[0x0A]" True True "[[0x41, 0x0A]]"]
  have "main ([lit ''A''] @ lit ''B'' # [lit ''C'']) 115200 [0x0A] True True [[0x41, 0x0A]] ?w =
     (Some SerialException, [fresh True],
      world0\<lparr>can_open := \<lambda>n b. n \<noteq> lit ''B'',
             trace := [SerialOpen (lit ''A'') 115200, SerialOpen (lit ''B'') 115200]\<rparr>)"
    by (simp add: opened_def fresh_def world0_def)
  moreover have "can_open ?w (lit ''A'') 115200" by (simp add: world0_def lit_def)
  ultimately show ?thesis using b by (intro conjI)
qed

text \<open>
  C7 (shutdown sequence). All ports have opened and the polling loop has run until the
  interrupt, leaving the pipelines \<open>ps'\<close>, which are those of the port list in its
  order. Then \<open>main\<close> ends without an exception, every pipeline closed, and what it
  does after the loop is, in this order: the message that ports are closing, one close
  per pipeline in list order, and then, only if \<open>save_to_file\<close> is set (each file
  opening), for every pipeline in list order the message naming the port, the opening
  of the file \<open>port_name + "_data.txt"\<close>, one write per record and the closing of the
  file. Without \<open>save_to_file\<close> nothing follows the closes.
\<close>

theorem shutdown_sequence:
  assumes "construct_all ports baud_rate delim verb [] w = (None, ps, w1)"
    and "poll_loop sched 0 ps (log (Print (lit ''All ports opened!'')) w1) = (None, ps', w2)"
    and "save_to_file \<longrightarrow> (\<forall>n\<in>set ports. can_write w (n @ lit ''_data.txt''))"
  shows "fst (main ports baud_rate delim verb save_to_file sched w) = None \<and>
         map port_name ps' = ports \<and>
         fst (snd (main ports baud_rate delim verb save_to_file sched w)) =
           map (\<lambda>p. p\<lparr>serial_port := (serial_port p)\<lparr>is_open := False\<rparr>\<rparr>) ps' \<and>
         trace (snd (snd (main ports baud_rate delim verb save_to_file sched w))) =
           trace w2 @ Print (lit ''Closing all serial ports!'') # map SerialClose ports @
           (if save_to_file then concat (map dump_events ps') else [])"
proof -
  let ?w0 = "log (Print (lit ''All ports opened!'')) w1"
  let ?closed = "map (\<lambda>p. p\<lparr>serial_port := (serial_port p)\<lparr>is_open := False\<rparr>\<rparr>) ps'"
  let ?w3 = "log (Print (lit ''Closing all serial ports!'')) w2"
  let ?w4 = "?w3\<lparr>trace := trace ?w3 @ map (\<lambda>p. SerialClose (port_name p)) ps'\<rparr>"
  from construct_all_names [OF assms(1)]
  have n1: "map port_name ps = ports" and c1: "can_write w1 = can_write w" by simp_all
  from poll_loop_names [of sched 0 ps ?w0] assms(2)
  have n2: "map port_name ps' = map port_name ps" and c2: "can_write w2 = can_write ?w0"
    by simp_all
  from n1 n2 have names: "map port_name ps' = ports" by simp
  from c1 c2 have cw: "can_write ?w4 = can_write w" by (simp add: log_def)
  have m: "main ports baud_rate delim verb save_to_file sched w = shutdown save_to_file ps' w2"
    using assms(1,2) by (simp add: main_def)
  have cl: "map (\<lambda>p. SerialClose (port_name p)) ps' = map SerialClose ports"
  proof -
    have "map (\<lambda>p. SerialClose (port_name p)) ps' = map SerialClose (map port_name ps')"
      by simp
    with names show ?thesis by (simp only:)
  qed
  have tr4: "trace ?w4 = trace w2 @ Print (lit ''Closing all serial ports!'') # map SerialClose ports"
    using cl by (simp add: log_def)
  have de: "map dump_events ?closed = map dump_events ps'"
    by (simp add: dump_events_def)
  show ?thesis
  proof (cases save_to_file)
    case False
    then have "shutdown save_to_file ps' w2 = (None, ?closed, ?w4)"
      by (simp add: shutdown_def close_all_eq Let_def)
    with m names tr4 False show ?thesis by simp
  next
    case True
    with assms(3) names have "\<forall>p\<in>set ps'. can_write w (port_name p @ lit ''_data.txt'')"
      by (metis image_eqI list.set_map)
    then have "\<forall>p\<in>set ?closed. can_write ?w4 (port_name p @ lit ''_data.txt'')"
      using cw by simp
    from dump_all_ok [OF this]
    have d1: "fst (dump_all ?closed ?w4) = None"
      and d0: "trace (snd (dump_all ?closed ?w4)) = trace ?w4 @ concat (map dump_events ?closed)"
      by blast+
    have d2: "trace (snd (dump_all ?closed ?w4)) =
                 trace w2 @ Print (lit ''Closing all serial ports!'') # map SerialClose ports @
                 concat (map dump_events ps')"
      by (simp only: d0 de tr4 append_assoc append_Cons)
    from True have "shutdown save_to_file ps' w2 =
        (fst (dump_all ?closed ?w4), ?closed, snd (dump_all ?closed ?w4))"
      by (simp add: shutdown_def close_all_eq Let_def split: prod.splits)
    with m names d1 d2 True show ?thesis by simp
  qed
qed

theorem shutdown_sequence_witness:
  "construct_all [lit ''A'', lit ''B''] 115200 [0x0A] False [] world0 =
     (None, [opened (lit ''A'') 115200 [0x0A] False, opened (lit ''B'') 115200 [0x0A] False],
      world0\<lparr>trace := [SerialOpen (lit ''A'') 115200, SerialOpen (lit ''B'') 115200]\<rparr>) \<and>
   poll_loop [[0x31, 0x0A], [0x32, 0x0A], [0x58]] 0
       [opened (lit ''A'') 115200 [0x0A] False, opened (lit ''B'') 115200 [0x0A] False]
       (log (Print (lit ''All ports opened!''))
          (world0\<lparr>trace := [SerialOpen (lit ''A'') 115200, SerialOpen (lit ''B'') 115200]\<rparr>)) =
     (None,
      [(opened (lit ''A'') 115200 [0x0A] False)\<lparr>cache := [0x58], lines := [[0x31]]\<rparr>,
       (opened (lit ''B'') 115200 [0x0A] False)\<lparr>lines := [[0x32]]\<rparr>],
      world0\<lparr>trace := [SerialOpen (lit ''A'') 115200, SerialOpen (lit ''B'') 115200,
                        Print (lit ''All ports opened!''),
                        InWaiting (lit ''A''), SerialRead (lit ''A'') 2,
                        InWaiting (lit ''B''), SerialRead (lit ''B'') 2,
                        InWaiting (lit ''A''), SerialRead (lit ''A'') 1]\<rparr>) \<and>
   can_write world0 (lit ''A'' @ lit ''_data.txt'') \<and>
   can_write world0 (lit ''B'' @ lit ''_data.txt'') \<and>
   fst (main [lit ''A'', lit ''B''] 115200 [0x0A] False True [[0x31, 0x0A], [0x32, 0x0A], [0x58]]
          world0) = None \<and>
   trace (snd (snd (main [lit ''A'', lit ''B''] 115200 [0x0A] False True
                      [[0x31, 0x0A], [0x32, 0x0A], [0x58]] world0))) =
     [SerialOpen (lit ''A'') 115200, SerialOpen (lit ''B'') 115200,
      Print (lit ''All ports opened!''),
      InWaiting (lit ''A''), SerialRead (lit ''A'') 2,
      InWaiting (lit ''B''), SerialRead (lit ''B'') 2,
      InWaiting (lit ''A''), SerialRead (lit ''A'') 1,
      Print (lit ''Closing all serial ports!''),
      SerialClose (lit ''A''), SerialClose (lit ''B''),
      Print (lit ''Saving data from port A''), FileOpen (lit ''A_data.txt''),
      FileWrite (lit ''A_data.txt'') [0x31], FileClose (lit ''A_data.txt''),
      Print (lit ''Saving data from port B''), FileOpen (lit ''B_data.txt''),
      FileWrite (lit ''B_data.txt'') [0x32], FileClose (lit ''B_data.txt'')]"
proof -
  let ?ps = "[opened (lit ''A'') 115200 [0x0A] False, opened (lit ''B'') 115200 [0x0A] False]"
  let ?w1 = "world0\<lparr>trace := [SerialOpen (lit ''A'') 115200, SerialOpen (lit ''B'') 115200]\<rparr>"
  let ?ps' = "[(opened (lit ''A'') 115200 [0x0A] False)\<lparr>cache := [0x58], lines := [[0x31]]\<rparr>,
       (opened (lit ''B'') 115200 [0x0A] False)\<lparr>lines := [[0x32]]\<rparr>]"
  let ?w2 = "world0\<lparr>trace := [SerialOpen (lit ''A'') 115200, SerialOpen (lit ''B'') 115200,
                        Print (lit ''All ports opened!''),
                        InWaiting (lit ''A''), SerialRead (lit ''A'') 2,
                        InWaiting (lit ''B''), SerialRead (lit ''B'') 2,
                        InWaiting (lit ''A''), SerialRead (lit ''A'') 1]\<rparr>"
  have a: "construct_all [lit ''A'', lit ''B''] 115200 [0x0A] False [] world0 = (None, ?ps, ?w1)"
    by (simp add: init_def Let_def opened_def world0_def log_def)
  have b: "poll_loop [[0x31, 0x0A], [0x32, 0x0A], [0x58]] 0 ?ps
             (log (Print (lit ''All ports opened!'')) ?w1) = (None, ?ps', ?w2)"
    by (simp add: opened_def run_simps)
  have c1: "can_write world0 (lit ''A'' @ lit ''_data.txt'')"
    and c2: "can_write world0 (lit ''B'' @ lit ''_data.txt'')"
    by (simp_all add: world0_def)
  from c1 c2
  have c: "True \<longrightarrow> (\<forall>n\<in>set [lit ''A'', lit ''B'']. can_write world0 (n @ lit ''_data.txt''))"
    by simp
  from shutdown_sequence [OF a b c]
  have r1: "fst (main [lit ''A'', lit ''B''] 115200 [0x0A] False True
                   [[0x31, 0x0A], [0x32, 0x0A], [0x58]] world0) = None"
    and r2: "trace (snd (snd (main [lit ''A'', lit ''B''] 115200 [0x0A] False True
                      [[0x31, 0x0A], [0x32, 0x0A], [0x58]] world0))) =
       trace ?w2 @ Print (lit ''Closing all serial ports!'') #
         map SerialClose [lit ''A'', lit ''B''] @
         (if True then concat (map dump_events ?ps') else [])"
    by blast+
  have t: "trace ?w2 @ Print (lit ''Closing all serial ports!'') #
         map SerialClose [lit ''A'', lit ''B''] @
         (if True then concat (map dump_events ?ps') else []) =
     [SerialOpen (lit ''A'') 115200, SerialOpen (lit ''B'') 115200,
      Print (lit ''All ports opened!''),
      InWaiting (lit ''A''), SerialRead (lit ''A'') 2,
      InWaiting (lit ''B''), SerialRead (lit ''B'') 2,
      InWaiting (lit ''A''), SerialRead (lit ''A'') 1,
      Print (lit ''Closing all serial ports!''),
      SerialClose (lit ''A''), SerialClose (lit ''B''),
      Print (lit ''Saving data from port A''), FileOpen (lit ''A_data.txt''),
      FileWrite (lit ''A_data.txt'') [0x31], FileClose (lit ''A_data.txt''),
      Print (lit ''Saving data from port B''), FileOpen (lit ''B_data.txt''),
      FileWrite (lit ''B_data.txt'') [0x32], FileClose (lit ''B_data.txt'')]"
    by (simp add: dump_events_def opened_def world0_def lit_def)
  from r2 t have r3: "trace (snd (snd (main [lit ''A'', lit ''B''] 115200 [0x0A] False True
                      [[0x31, 0x0A], [0x32, 0x0A], [0x58]] world0))) =
     [SerialOpen (lit ''A'') 115200, SerialOpen (lit ''B'') 115200,
      Print (lit ''All ports opened!''),
      InWaiting (lit ''A''), SerialRead (lit ''A'') 2,
      InWaiting (lit ''B''), SerialRead (lit ''B'') 2,
      InWaiting (lit ''A''), SerialRead (lit ''A'') 1,
      Print (lit ''Closing all serial ports!''),
      SerialClose (lit ''A''), SerialClose (lit ''B''),
      Print (lit ''Saving data from port A''), FileOpen (lit ''A_data.txt''),
      FileWrite (lit ''A_data.txt'') [0x31], FileClose (lit ''A_data.txt''),
      Print (lit ''Saving data from port B''), FileOpen (lit ''B_data.txt''),
      FileWrite (lit ''B_data.txt'') [0x32], FileClose (lit ''B_data.txt'')]"
    by (simp only:)
  from a b c1 c2 r1 r3 show ?thesis by (intro conjI)
qed

end
